theory Spec2Isabelle
  imports Main "HOL-Library.Word" "HOL-Library.Sublist"
begin

section \<open>The service locator of \<^verbatim>\<open>src/index.ts\<close>\<close>

text \<open>
  The class \<^verbatim>\<open>ServiceLocator\<close> keeps a private \<^verbatim>\<open>Map<string, any>\<close> and offers
  \<^verbatim>\<open>register\<close>, \<^verbatim>\<open>get\<close> and \<^verbatim>\<open>has\<close>; the static method \<^verbatim>\<open>getInstance\<close> hands out
  the one object of the class. The embedding has two layers. A method is a function on a
  frame: the fields of the receiver and the console, the only two things a method body
  touches. Objects live in a store, a reference is an index into it, and a call through
  a reference runs the method on the object stored there and writes the object back.
\<close>

subsection \<open>Strings, values, completions\<close>

text \<open>
  A JavaScript string is a sequence of 16-bit code units, and two strings are the same
  \<^verbatim>\<open>Map\<close> key exactly when the sequences are equal. The pieces of the template literals
  of the source are ASCII text.
\<close>

type_synonym js_string = "16 word list"

definition ascii :: "string \<Rightarrow> js_string" where
  "ascii cs = map of_char cs"

text \<open>
  The map holds values of type \<^verbatim>\<open>any\<close>. \<open>Undefined\<close> is kept apart, because it is what
  \<^verbatim>\<open>Map.prototype.get\<close> answers for a key without entry; every other value (a primitive
  or the reference to an object) is a \<open>Value\<close>. For an object the value is the reference
  itself, so equal values of the model are the same instance.
\<close>

datatype 'a js_value = Undefined | Value 'a

text \<open>\<^verbatim>\<open>new Error(message)\<close>, and the two ways a call ends.\<close>

datatype js_error = Error js_string

datatype 'r completion = Return 'r | Throw js_error

subsection \<open>The built-in \<^verbatim>\<open>Map\<close>\<close>

text \<open>
  The \<^verbatim>\<open>Map\<close> of the field \<^verbatim>\<open>services\<close> is private, assigned once and never handed
  out, so it has no alias and is embedded by value in its object.
\<close>

definition Map_has :: "('k \<rightharpoonup> 'v js_value) \<Rightarrow> 'k \<Rightarrow> bool" where
  "Map_has m k = (m k \<noteq> None)"

definition Map_get :: "('k \<rightharpoonup> 'v js_value) \<Rightarrow> 'k \<Rightarrow> 'v js_value" where
  "Map_get m k = (case m k of None \<Rightarrow> Undefined | Some v \<Rightarrow> v)"

definition Map_set :: "('k \<rightharpoonup> 'v js_value) \<Rightarrow> 'k \<Rightarrow> 'v js_value \<Rightarrow> ('k \<rightharpoonup> 'v js_value)" where
  "Map_set m k v = m(k \<mapsto> v)"

subsection \<open>The class\<close>

record 'a ServiceLocator =
  services :: "js_string \<rightharpoonup> 'a js_value"

text \<open>
  What a method body reads and writes: the receiver \<^verbatim>\<open>this\<close> and the lines written
  with \<^verbatim>\<open>console.warn\<close>, oldest first.
\<close>

record 'a frame =
  receiver :: "'a ServiceLocator"
  console :: "js_string list"

definition console_warn :: "js_string \<Rightarrow> 'a frame \<Rightarrow> 'a frame" where
  "console_warn line f = f\<lparr>console := console f @ [line]\<rparr>"

text \<open>The two template literals, with the key spliced in between apostrophes.\<close>

definition overwriting_message :: "js_string \<Rightarrow> js_string" where
  "overwriting_message key =
     ascii (''Service with key '' @ [CHR 0x27]) @ key
       @ ascii ''' is already registered. Overwriting.''"

definition not_found_message :: "js_string \<Rightarrow> js_string" where
  "not_found_message key =
     ascii (''Service with key '' @ [CHR 0x27]) @ key @ ascii ''' not found.''"

definition register :: "js_string \<Rightarrow> 'a js_value \<Rightarrow> 'a frame \<Rightarrow> unit completion \<times> 'a frame" where
  "register key inst f =
     (let f1 = (if Map_has (services (receiver f)) key
                then console_warn (overwriting_message key) f else f)
      in (Return (),
          f1\<lparr>receiver := (receiver f1)\<lparr>services := Map_set (services (receiver f1)) key inst\<rparr>\<rparr>))"

definition get :: "js_string \<Rightarrow> 'a frame \<Rightarrow> 'a js_value completion \<times> 'a frame" where
  "get key f =
     (if \<not> Map_has (services (receiver f)) key
      then (Throw (Error (not_found_message key)), f)
      else (Return (Map_get (services (receiver f)) key), f))"

definition has :: "js_string \<Rightarrow> 'a frame \<Rightarrow> bool completion \<times> 'a frame" where
  "has key f = (Return (Map_has (services (receiver f)) key), f)"

subsection \<open>Sequences of calls on one object\<close>

text \<open>
  A caller's history on one locator: each call with its arguments. \<open>step\<close> is the frame
  a call leaves behind, whether it returned or threw (a caller that catches the error of
  \<^verbatim>\<open>get\<close> goes on with that frame), and \<open>run\<close> is a whole history, oldest call first.
\<close>

datatype 'a call = Register js_string "'a js_value" | Get js_string | Has js_string

fun step :: "'a call \<Rightarrow> 'a frame \<Rightarrow> 'a frame" where
  "step (Register k v) f = snd (register k v f)"
| "step (Get k) f = snd (get k f)"
| "step (Has k) f = snd (has k f)"

primrec run :: "'a call list \<Rightarrow> 'a frame \<Rightarrow> 'a frame" where
  "run [] f = f"
| "run (c # cs) f = run cs (step c f)"

fun registers :: "js_string \<Rightarrow> 'a call \<Rightarrow> bool" where
  "registers k (Register k' v) = (k' = k)"
| "registers k (Get k') = False"
| "registers k (Has k') = False"

fun observer :: "'a call \<Rightarrow> bool" where
  "observer (Register k v) = False"
| "observer (Get k) = True"
| "observer (Has k) = True"

text \<open>
  The frame of a locator straight after its construction (the field initialiser
  \<^verbatim>\<open>services = new Map()\<close>), under any console contents.
\<close>

definition new_frame :: "js_string list \<Rightarrow> 'a frame" where
  "new_frame lines = \<lparr>receiver = \<lparr>services = Map.empty\<rparr>, console = lines\<rparr>"

subsection \<open>The store and the singleton\<close>

text \<open>
  The objects of the class are kept in a list and a reference is a position in it. The
  static field \<^verbatim>\<open>ServiceLocator.instance\<close> holds a reference, or \<open>None\<close> while it is
  still \<^verbatim>\<open>undefined\<close>. \<open>printed\<close> is the console of the process.
\<close>

record 'a world =
  heap :: "'a ServiceLocator list"
  instance_field :: "nat option"
  printed :: "js_string list"

text \<open>\<^verbatim>\<open>new ServiceLocator()\<close>: a new object with an empty map, at a new reference.\<close>

definition new_ServiceLocator :: "'a world \<Rightarrow> nat \<times> 'a world" where
  "new_ServiceLocator w =
     (length (heap w), w\<lparr>heap := heap w @ [\<lparr>services = Map.empty\<rparr>]\<rparr>)"

text \<open>
  The test \<^verbatim>\<open>!ServiceLocator.instance\<close> holds exactly while the field is undefined: a
  reference to an object is never falsy.
\<close>

definition getInstance :: "'a world \<Rightarrow> nat completion \<times> 'a world" where
  "getInstance w =
     (case instance_field w of
        None \<Rightarrow>
          (let (r, w1) = new_ServiceLocator w
           in (Return r, w1\<lparr>instance_field := Some r\<rparr>))
      | Some r \<Rightarrow> (Return r, w))"

text \<open>
  A method call \<^verbatim>\<open>r.m(...)\<close> through a reference: the method runs on the object at
  \<open>r\<close> and on the console, and both are written back. \<open>None\<close> stands for a reference
  that points to no object, which no JavaScript program can hold.
\<close>

definition invoke ::
  "nat \<Rightarrow> ('a frame \<Rightarrow> 'r completion \<times> 'a frame) \<Rightarrow> 'a world \<Rightarrow> ('r completion \<times> 'a world) option" where
  "invoke r m w =
     (if r < length (heap w)
      then (let (x, f) = m \<lparr>receiver = heap w ! r, console = printed w\<rparr>
            in Some (x, w\<lparr>heap := (heap w)[r := receiver f], printed := console f\<rparr>))
      else None)"

text \<open>What a program can do with the class: ask for the instance, or call a method.\<close>

datatype 'a action = GetInstance | Call nat "'a call"

fun act :: "'a action \<Rightarrow> 'a world \<Rightarrow> 'a world" where
  "act GetInstance w = snd (getInstance w)"
| "act (Call r c) w =
     (case invoke r (\<lambda>f. (Return (), step c f)) w of
        None \<Rightarrow> w
      | Some (x, w1) \<Rightarrow> w1)"

primrec acts :: "'a action list \<Rightarrow> 'a world \<Rightarrow> 'a world" where
  "acts [] w = w"
| "acts (a # as) w = acts as (act a w)"

text \<open>The world when the program starts, and the invariant of every world it reaches.\<close>

definition initial_world :: "'a world" where
  "initial_world = \<lparr>heap = [], instance_field = None, printed = []\<rparr>"

definition wf_world :: "'a world \<Rightarrow> bool" where
  "wf_world w = (case instance_field w of None \<Rightarrow> True | Some r \<Rightarrow> r < length (heap w))"

section \<open>Properties of the methods\<close>

subsection \<open>What each method does to the map and to the console\<close>

lemma register_returns: "fst (register k v f) = Return ()"
  by (simp add: register_def Let_def)

lemma register_services:
  "services (receiver (snd (register k v f))) = (services (receiver f))(k \<mapsto> v)"
  by (simp add: register_def Let_def Map_set_def console_warn_def)

lemma register_console:
  "console (snd (register k v f)) =
     (if services (receiver f) k \<noteq> None then console f @ [overwriting_message k] else console f)"
  by (simp add: register_def Let_def Map_has_def console_warn_def)

lemma has_eq: "has k f = (Return (services (receiver f) k \<noteq> None), f)"
  by (simp add: has_def Map_has_def)

lemma get_present:
  "services (receiver f) k = Some v \<Longrightarrow> get k f = (Return v, f)"
  by (simp add: get_def Map_has_def Map_get_def)

lemma get_absent:
  "services (receiver f) k = None \<Longrightarrow> get k f = (Throw (Error (not_found_message k)), f)"
  by (simp add: get_def Map_has_def)

lemma message_contains_key: "sublist k (not_found_message k)"
  by (simp add: not_found_message_def)

lemma not_found_message_inj: "not_found_message k' = not_found_message k \<Longrightarrow> k' = k"
  by (simp add: not_found_message_def)

subsection \<open>Histories of calls\<close>

lemma step_services_mono:
  "services (receiver f) k \<noteq> None \<Longrightarrow> services (receiver (step c f)) k \<noteq> None"
  by (cases c) (simp_all add: register_services get_def has_def)

lemma run_services_mono:
  "services (receiver f) k \<noteq> None \<Longrightarrow> services (receiver (run cs f)) k \<noteq> None"
proof (induction cs arbitrary: f)
  case Nil
  then show ?case by simp
next
  case (Cons c cs)
  from Cons.prems have "services (receiver (step c f)) k \<noteq> None"
    by (rule step_services_mono)
  then have "services (receiver (run cs (step c f))) k \<noteq> None"
    by (rule Cons.IH)
  then show ?case by simp
qed

lemma step_unregistered:
  "\<not> registers k c \<Longrightarrow> services (receiver (step c f)) k = services (receiver f) k"
  by (cases c) (auto simp add: register_services get_def has_def)

lemma run_unregistered:
  "\<forall>c \<in> set cs. \<not> registers k c \<Longrightarrow>
   services (receiver (run cs f)) k = services (receiver f) k"
  by (induction cs arbitrary: f) (simp_all add: step_unregistered)

lemma step_observer: "observer c \<Longrightarrow> step c f = f"
  by (cases c) (simp_all add: get_def has_def)

lemma run_observers: "list_all observer cs \<Longrightarrow> run cs f = f"
  by (induction cs arbitrary: f) (simp_all add: step_observer)

subsection \<open>The store\<close>

lemma getInstance_again:
  "instance_field w = Some r \<Longrightarrow> getInstance w = (Return r, w)"
  by (simp add: getInstance_def)

lemma getInstance_first:
  "instance_field w = None \<Longrightarrow>
   getInstance w =
     (Return (length (heap w)),
      w\<lparr>heap := heap w @ [\<lparr>services = Map.empty\<rparr>], instance_field := Some (length (heap w))\<rparr>)"
  by (simp add: getInstance_def new_ServiceLocator_def)

lemma getInstance_sets_field:
  "\<exists>r. fst (getInstance w) = Return r \<and> instance_field (snd (getInstance w)) = Some r"
  by (cases "instance_field w") (simp_all add: getInstance_again getInstance_first)

lemma getInstance_wf: "wf_world w \<Longrightarrow> wf_world (snd (getInstance w))"
  by (cases "instance_field w") (simp_all add: getInstance_again getInstance_first wf_world_def)

lemma invoke_field:
  "invoke r m w = Some (x, w1) \<Longrightarrow>
   instance_field w1 = instance_field w \<and> length (heap w1) = length (heap w)"
  by (auto simp add: invoke_def Let_def split: if_splits prod.splits)

lemma act_field: "instance_field w = Some r \<Longrightarrow> instance_field (act a w) = Some r"
proof (cases a)
  case GetInstance
  assume "instance_field w = Some r"
  with GetInstance show ?thesis by (simp add: getInstance_again)
next
  case (Call r' c)
  assume "instance_field w = Some r"
  with Call show ?thesis
    by (auto split: option.splits dest: invoke_field)
qed

lemma act_wf: "wf_world w \<Longrightarrow> wf_world (act a w)"
proof (cases a)
  case GetInstance
  assume "wf_world w"
  with GetInstance show ?thesis by (simp add: getInstance_wf)
next
  case (Call r' c)
  assume "wf_world w"
  with Call show ?thesis
    by (auto simp add: wf_world_def split: option.splits dest: invoke_field)
qed

lemma acts_field: "instance_field w = Some r \<Longrightarrow> instance_field (acts as w) = Some r"
  by (induction as arbitrary: w) (simp_all add: act_field)

lemma acts_wf: "wf_world w \<Longrightarrow> wf_world (acts as w)"
  by (induction as arbitrary: w) (simp_all add: act_wf)

lemma initial_world_wf: "wf_world initial_world"
  by (simp add: wf_world_def initial_world_def)

text \<open>Every world the program reaches from its start satisfies the invariant.\<close>

lemma reachable_wf: "wf_world (acts as initial_world)"
  using initial_world_wf by (rule acts_wf)

lemma invoke_register:
  assumes "r < length (heap w)"
  shows "\<exists>w1. invoke r (register k v) w = Some (Return (), w1)
            \<and> r < length (heap w1) \<and> services (heap w1 ! r) k = Some v
            \<and> instance_field w1 = instance_field w"
  using assms
  by (simp add: invoke_def register_def Let_def Map_set_def console_warn_def)

lemma invoke_get:
  assumes "r < length (heap w)" and "services (heap w ! r) k = Some v"
  shows "invoke r (get k) w = Some (Return v, w)"
  using assms
  by (simp add: invoke_def get_def Map_has_def Map_get_def)

section \<open>The claims\<close>

text \<open>
  C1. For every key \<open>k\<close> and value \<open>v\<close>, after \<open>register k v\<close> the call \<open>has k\<close>
  returns true and the call \<open>get k\<close> returns \<open>v\<close> itself: the value that was passed in,
  which for an object is the same reference. Neither call changes the frame.
\<close>

theorem register_then_has_get:
  "has k (snd (register k v f)) = (Return True, snd (register k v f))
   \<and> get k (snd (register k v f)) = (Return v, snd (register k v f))"
  by (simp add: has_eq get_present register_services)

text \<open>
  C2. A key \<open>k\<close> that was never registered: on a locator that started empty and saw any
  history of calls without a \<open>register\<close> of \<open>k\<close>, \<open>has k\<close> returns false and \<open>get k\<close>
  throws the error whose message is built from \<open>k\<close>. The error carries the key: the key
  is part of the message, and the message determines the key.
\<close>

theorem unregistered_key:
  assumes "\<forall>c \<in> set cs. \<not> registers k c"
  shows "has k (run cs (new_frame lines)) = (Return False, run cs (new_frame lines))
       \<and> get k (run cs (new_frame lines))
           = (Throw (Error (not_found_message k)), run cs (new_frame lines))
       \<and> sublist k (not_found_message k)
       \<and> (\<forall>k'. not_found_message k' = not_found_message k \<longrightarrow> k' = k)"
proof -
  have "services (receiver (run cs (new_frame lines))) k = None"
    using run_unregistered [OF assms, of "new_frame lines"] by (simp add: new_frame_def)
  then show ?thesis
    by (simp add: has_eq get_absent message_contains_key not_found_message_inj)
qed

theorem unregistered_key_witness:
  "\<not> registers (ascii ''Missing'') (Register (ascii ''Logger'') (Value (1::nat)))
   \<and> \<not> registers (ascii ''Missing'') (Has (ascii ''Missing'') :: nat call)
   \<and> \<not> registers (ascii ''Missing'') (Get (ascii ''Missing'') :: nat call)
   \<and> fst (has (ascii ''Missing'')
        (run [Register (ascii ''Logger'') (Value (1::nat)), Has (ascii ''Missing''),
              Get (ascii ''Missing'')] (new_frame []))) = Return False
   \<and> fst (get (ascii ''Missing'')
        (run [Register (ascii ''Logger'') (Value (1::nat)), Has (ascii ''Missing''),
              Get (ascii ''Missing'')] (new_frame [])))
       = Throw (Error (ascii ''Service with key 'Missing' not found.''))"
  using unregistered_key [of "[Register (ascii ''Logger'') (Value (1::nat)),
      Has (ascii ''Missing''), Get (ascii ''Missing'')]" "ascii ''Missing''" "[]"]
  by (simp add: ascii_def not_found_message_def)

text \<open>
  C3. Last write wins: after \<open>register k v1\<close> and then \<open>register k v2\<close>, \<open>get k\<close>
  returns \<open>v2\<close> (so not \<open>v1\<close>, when the two differ). The second \<open>register\<close> returns
  normally and writes exactly one line, the overwrite warning for \<open>k\<close>, to the console.
\<close>

theorem overwrite_last_wins:
  "fst (register k v2 (snd (register k v1 f))) = Return ()
   \<and> get k (snd (register k v2 (snd (register k v1 f))))
       = (Return v2, snd (register k v2 (snd (register k v1 f))))
   \<and> (v1 \<noteq> v2 \<longrightarrow> fst (get k (snd (register k v2 (snd (register k v1 f))))) \<noteq> Return v1)
   \<and> console (snd (register k v2 (snd (register k v1 f))))
       = console (snd (register k v1 f)) @ [overwriting_message k]"
  by (simp add: register_returns get_present register_services register_console)

theorem overwrite_last_wins_witness:
  "Value (1::nat) \<noteq> Value 2
   \<and> fst (get (ascii ''Logger'')
        (snd (register (ascii ''Logger'') (Value 2)
          (snd (register (ascii ''Logger'') (Value (1::nat)) (new_frame []))))))
       = Return (Value 2)
   \<and> fst (get (ascii ''Logger'')
        (snd (register (ascii ''Logger'') (Value 2)
          (snd (register (ascii ''Logger'') (Value (1::nat)) (new_frame []))))))
       \<noteq> Return (Value 1)
   \<and> console (snd (register (ascii ''Logger'') (Value 2)
          (snd (register (ascii ''Logger'') (Value (1::nat)) (new_frame [])))))
       = [ascii ''Service with key 'Logger' is already registered. Overwriting.'']"
  using overwrite_last_wins [of "ascii ''Logger''" "Value 2" "Value (1::nat)" "new_frame []"]
  by (simp add: register_console new_frame_def overwriting_message_def ascii_def)

text \<open>
  C4. When \<open>has k\<close> is false, \<open>get k\<close> throws an error whose message contains the key
  \<open>k\<close> as a substring, and leaves the frame as it was. An instance is \<open>get "Missing"\<close>
  on a locator that only holds \<open>"Logger"\<close>.
\<close>

theorem missing_key_message:
  assumes "fst (has k f) = Return False"
  shows "\<exists>msg. get k f = (Throw (Error msg), f) \<and> sublist k msg"
proof -
  from assms have "services (receiver f) k = None"
    by (simp add: has_eq)
  then have "get k f = (Throw (Error (not_found_message k)), f)"
    by (rule get_absent)
  with message_contains_key show ?thesis by blast
qed

theorem missing_key_message_witness:
  "fst (has (ascii ''Missing'')
      (snd (register (ascii ''Logger'') (Value (1::nat)) (new_frame [])))) = Return False
   \<and> (\<exists>msg. fst (get (ascii ''Missing'')
              (snd (register (ascii ''Logger'') (Value (1::nat)) (new_frame []))))
           = Throw (Error msg) \<and> sublist (ascii ''Missing'') msg)"
proof -
  have h: "fst (has (ascii ''Missing'')
      (snd (register (ascii ''Logger'') (Value (1::nat)) (new_frame [])))) = Return False"
    by (simp add: has_eq register_services new_frame_def ascii_def)
  from missing_key_message [OF h] h show ?thesis by auto
qed

text \<open>
  C5. \<open>getInstance\<close> always returns a reference, never throws, and every later call, after
  any actions of the program in between, returns the same reference and leaves the world
  as it is. A \<open>register\<close> made through that reference is seen by a \<open>get\<close> through the
  reference a later \<open>getInstance\<close> returns. The hypothesis is the invariant of the worlds
  the program reaches (\<open>reachable_wf\<close>).
\<close>

theorem getInstance_shared:
  assumes "wf_world w"
  shows "\<exists>r. fst (getInstance w) = Return r
          \<and> (\<forall>as. getInstance (acts as (snd (getInstance w)))
                    = (Return r, acts as (snd (getInstance w))))
          \<and> (\<forall>as k v. \<exists>w1.
                invoke r (register k v) (acts as (snd (getInstance w))) = Some (Return (), w1)
                \<and> getInstance w1 = (Return r, w1)
                \<and> invoke r (get k) w1 = Some (Return v, w1))"
proof -
  from getInstance_sets_field obtain r where
    r: "fst (getInstance w) = Return r" and
    field: "instance_field (snd (getInstance w)) = Some r"
    by blast
  have wf: "wf_world (snd (getInstance w))"
    using assms by (rule getInstance_wf)
  have same: "getInstance (acts as (snd (getInstance w)))
                = (Return r, acts as (snd (getInstance w)))" for as
    using acts_field [OF field] by (rule getInstance_again)
  have visible: "\<exists>w1. invoke r (register k v) (acts as (snd (getInstance w)))
                        = Some (Return (), w1)
                \<and> getInstance w1 = (Return r, w1)
                \<and> invoke r (get k) w1 = Some (Return v, w1)" for as k v
  proof -
    let ?w = "acts as (snd (getInstance w))"
    have f: "instance_field ?w = Some r"
      using field by (rule acts_field)
    have "wf_world ?w"
      using wf by (rule acts_wf)
    with f have "r < length (heap ?w)"
      by (simp add: wf_world_def)
    from invoke_register [OF this, of k v] obtain w1 where
      w1: "invoke r (register k v) ?w = Some (Return (), w1)"
        "r < length (heap w1)" "services (heap w1 ! r) k = Some v"
        "instance_field w1 = instance_field ?w"
      by blast
    from w1(4) f have "getInstance w1 = (Return r, w1)"
      by (simp add: getInstance_again)
    moreover from w1(2,3) have "invoke r (get k) w1 = Some (Return v, w1)"
      by (rule invoke_get)
    ultimately show ?thesis using w1(1) by blast
  qed
  from r same visible show ?thesis by blast
qed

theorem getInstance_shared_witness:
  "wf_world (initial_world :: nat world)
   \<and> fst (getInstance (initial_world :: nat world)) = Return 0
   \<and> fst (getInstance (snd (getInstance (initial_world :: nat world)))) = Return 0
   \<and> (\<exists>w1. invoke 0 (register (ascii ''Logger'') (Value (1::nat)))
               (snd (getInstance initial_world)) = Some (Return (), w1)
          \<and> invoke 0 (get (ascii ''Logger'')) w1 = Some (Return (Value 1), w1))"
proof -
  have h: "wf_world (initial_world :: nat world)"
    by (simp add: wf_world_def initial_world_def)
  have r: "fst (getInstance (initial_world :: nat world)) = Return 0"
    by (simp add: getInstance_def new_ServiceLocator_def initial_world_def)
  from getInstance_shared [OF h] r obtain
    same: "\<forall>as. getInstance (acts as (snd (getInstance (initial_world :: nat world))))
                    = (Return 0, acts as (snd (getInstance initial_world)))" and
    visible: "\<forall>as k v. \<exists>w1.
                invoke 0 (register k v) (acts as (snd (getInstance (initial_world :: nat world))))
                  = Some (Return (), w1)
                \<and> getInstance w1 = (Return 0, w1)
                \<and> invoke 0 (get k) w1 = Some (Return v, w1)"
    by auto
  from same [rule_format, of "[]"]
  have "fst (getInstance (snd (getInstance (initial_world :: nat world)))) = Return 0"
    by simp
  moreover from visible [THEN spec, of "[]"]
  have "\<exists>w1. invoke 0 (register (ascii ''Logger'') (Value (1::nat)))
               (snd (getInstance initial_world)) = Some (Return (), w1)
          \<and> invoke 0 (get (ascii ''Logger'')) w1 = Some (Return (Value 1), w1)"
    by auto
  ultimately show ?thesis using h r by blast
qed

text \<open>
  C6. Keys are never removed: from any frame in which \<open>has k\<close> is true, \<open>has k\<close> is
  still true after any history of \<open>register\<close>, \<open>get\<close> and \<open>has\<close> calls, with any keys
  and values.
\<close>

theorem keys_never_removed:
  assumes "fst (has k f) = Return True"
  shows "fst (has k (run cs f)) = Return True"
proof -
  from assms have "services (receiver f) k \<noteq> None"
    by (simp add: has_eq)
  then have "services (receiver (run cs f)) k \<noteq> None"
    by (rule run_services_mono)
  then show ?thesis by (simp add: has_eq)
qed

theorem keys_never_removed_witness:
  "fst (has (ascii ''Logger'')
      (snd (register (ascii ''Logger'') (Value (1::nat)) (new_frame [])))) = Return True
   \<and> fst (has (ascii ''Logger'')
        (run [Get (ascii ''Missing''), Register (ascii ''Api'') (Value 2),
              Register (ascii ''Logger'') Undefined, Has (ascii ''Api'')]
          (snd (register (ascii ''Logger'') (Value (1::nat)) (new_frame []))))) = Return True"
proof -
  have h: "fst (has (ascii ''Logger'')
      (snd (register (ascii ''Logger'') (Value (1::nat)) (new_frame [])))) = Return True"
    by (simp add: has_eq register_services)
  from keys_never_removed [OF h] h show ?thesis by blast
qed

text \<open>
  C7. \<open>has\<close> and \<open>get\<close> are observers: each leaves the frame (the map and the console)
  exactly as it was, whether \<open>get\<close> returns or throws. So any history made of \<open>has\<close>
  and \<open>get\<close> calls only leaves the frame unchanged, and \<open>has k\<close> answers after it what
  it answered before.
\<close>

theorem observers_change_nothing:
  "snd (has k f) = f \<and> snd (get k f) = f
   \<and> (list_all observer cs \<longrightarrow> run cs f = f \<and> fst (has k (run cs f)) = fst (has k f))"
  by (simp add: has_def get_def run_observers)

theorem observers_change_nothing_witness:
  "list_all observer [Has (ascii ''Logger'') :: nat call, Get (ascii ''Missing''),
      Has (ascii ''Logger''), Get (ascii ''Logger'')]
   \<and> run [Has (ascii ''Logger'') :: nat call, Get (ascii ''Missing''),
           Has (ascii ''Logger''), Get (ascii ''Logger'')]
        (snd (register (ascii ''Logger'') (Value (1::nat)) (new_frame [])))
       = snd (register (ascii ''Logger'') (Value (1::nat)) (new_frame []))"
proof -
  have h: "list_all observer [Has (ascii ''Logger'') :: nat call, Get (ascii ''Missing''),
      Has (ascii ''Logger''), Get (ascii ''Logger'')]"
    by simp
  from observers_change_nothing [of "ascii ''Logger''"
      "snd (register (ascii ''Logger'') (Value (1::nat)) (new_frame []))"
      "[Has (ascii ''Logger'') :: nat call, Get (ascii ''Missing''),
        Has (ascii ''Logger''), Get (ascii ''Logger'')]"] h
  show ?thesis by blast
qed

text \<open>
  C8. \<open>register\<close> always returns normally and the value is stored, also when the key was
  there and the warning is written; \<open>has\<close> always returns normally; \<open>getInstance\<close>
  always returns normally; and \<open>get k\<close> throws exactly when \<open>has k\<close> is false.
\<close>

theorem only_get_fails:
  "fst (register k v f) = Return ()
   \<and> services (receiver (snd (register k v f))) k = Some v
   \<and> (\<exists>b. fst (has k f) = Return b)
   \<and> (\<exists>r. fst (getInstance w) = Return r)
   \<and> ((\<exists>e. fst (get k f) = Throw e) = (fst (has k f) = Return False))"
proof -
  have "\<exists>r. fst (getInstance w) = Return r"
    using getInstance_sets_field [of w] by blast
  then show ?thesis
    by (simp add: register_returns register_services has_def get_def)
qed

text \<open>
  C9. Registering under \<open>k2\<close> leaves every other key \<open>k1\<close> alone: \<open>has k1\<close> answers the
  same, \<open>get k1\<close> ends the same way (the same value when \<open>k1\<close> is present), and the entry
  of \<open>k1\<close> in the map is unchanged.
\<close>

theorem register_other_key:
  assumes "k1 \<noteq> k2"
  shows "fst (has k1 (snd (register k2 v2 f))) = fst (has k1 f)
       \<and> fst (get k1 (snd (register k2 v2 f))) = fst (get k1 f)
       \<and> services (receiver (snd (register k2 v2 f))) k1 = services (receiver f) k1"
  using assms by (simp add: has_def get_def Map_has_def Map_get_def register_services)

theorem register_other_key_witness:
  "ascii ''Logger'' \<noteq> ascii ''Api''
   \<and> fst (get (ascii ''Logger'')
        (snd (register (ascii ''Api'') (Value 2)
          (snd (register (ascii ''Logger'') (Value (1::nat)) (new_frame []))))))
       = Return (Value 1)"
proof -
  have h: "ascii ''Logger'' \<noteq> ascii ''Api''"
    by (simp add: ascii_def)
  from register_other_key [OF h, of "Value 2"
      "snd (register (ascii ''Logger'') (Value (1::nat)) (new_frame []))"] h
  show ?thesis by (simp add: get_present register_services)
qed

text \<open>
  C10. The empty string is a key like any other: \<open>register "" v\<close> returns normally and
  stores \<open>v\<close> under the empty key by the same map update as for every key, after which
  \<open>has ""\<close> returns true and \<open>get ""\<close> returns \<open>v\<close>.
\<close>

theorem empty_key_ordinary:
  "fst (register [] v f) = Return ()
   \<and> has [] (snd (register [] v f)) = (Return True, snd (register [] v f))
   \<and> get [] (snd (register [] v f)) = (Return v, snd (register [] v f))
   \<and> services (receiver (snd (register [] v f))) = (services (receiver f))([] \<mapsto> v)"
  by (simp add: register_returns has_eq get_present register_services)

end
